theory Spec2Isabelle
  imports Main "HOL-Library.Multiset"
begin

section \<open>Configuration constants\<close>

text \<open>
  The module-level constants of \<^verbatim>\<open>hackerone_fetch_domains.py\<close>. Durations and
  points in time are integers counting microseconds, the resolution of Python's
  \<^verbatim>\<open>datetime\<close> and \<^verbatim>\<open>timedelta\<close>.
\<close>

definition seconds :: "int \<Rightarrow> int" where
  "seconds n = n * 1000000"

definition timedelta_days :: "int \<Rightarrow> int" where
  "timedelta_days d = seconds (d * 86400)"

definition PROGRAMS_CACHE_FILE :: string where
  "PROGRAMS_CACHE_FILE = ''hackerone_programs_cache.json''"

definition MAX_REQUESTS_PER_MINUTE :: int where
  "MAX_REQUESTS_PER_MINUTE = 600"

definition RATE_LIMIT_DELAY :: int where
  "RATE_LIMIT_DELAY = seconds 60 div MAX_REQUESTS_PER_MINUTE"

definition MAX_RETRIES :: nat where
  "MAX_RETRIES = 3"

definition CACHE_EXPIRY_DAYS :: int where
  "CACHE_EXPIRY_DAYS = 30"

definition semaphore_capacity :: int where
  "semaphore_capacity = MAX_REQUESTS_PER_MINUTE div 60"

section \<open>JSON values and the Python operations applied to them\<close>

text \<open>
  Decoded JSON, as \<^verbatim>\<open>response.json()\<close> and \<^verbatim>\<open>json.load\<close> return it. Python's
  \<^verbatim>\<open>None\<close> is \<open>JNull\<close>. Numbers are integers here; an object is the list of its
  key-value pairs with distinct keys. Characters stand for code points below 256.
\<close>

datatype json = JNull | JBool bool | JNum int | JStr string
  | JArr "json list" | JObj "(string \<times> json) list"

datatype error = AttributeError | KeyError | TypeError | OSError | JSONDecodeError

definition and_then :: "error + 'a \<Rightarrow> ('a \<Rightarrow> error + 'b) \<Rightarrow> error + 'b" where
  "and_then r f = (case r of Inl e \<Rightarrow> Inl e | Inr x \<Rightarrow> f x)"

text \<open>Truthiness: what \<^verbatim>\<open>if x\<close> and \<^verbatim>\<open>not x\<close> test.\<close>

fun truthy :: "json \<Rightarrow> bool" where
  "truthy JNull = False"
| "truthy (JBool b) = b"
| "truthy (JNum n) = (n \<noteq> 0)"
| "truthy (JStr s) = (s \<noteq> [])"
| "truthy (JArr xs) = (xs \<noteq> [])"
| "truthy (JObj kv) = (kv \<noteq> [])"

text \<open>\<^verbatim>\<open>x.get(key, default)\<close>: only a dict has the method.\<close>

fun py_get :: "json \<Rightarrow> string \<Rightarrow> json \<Rightarrow> error + json" where
  "py_get (JObj kv) k dflt = Inr (case map_of kv k of None \<Rightarrow> dflt | Some v \<Rightarrow> v)"
| "py_get _ k dflt = Inl AttributeError"

text \<open>\<^verbatim>\<open>x[key]\<close> with a string key.\<close>

fun py_index :: "json \<Rightarrow> string \<Rightarrow> error + json" where
  "py_index (JObj kv) k = (case map_of kv k of None \<Rightarrow> Inl KeyError | Some v \<Rightarrow> Inr v)"
| "py_index _ k = Inl TypeError"

text \<open>Iterating a value, as \<^verbatim>\<open>for\<close> and \<^verbatim>\<open>list.extend\<close> do.\<close>

fun py_iter :: "json \<Rightarrow> error + json list" where
  "py_iter (JArr xs) = Inr xs"
| "py_iter (JStr s) = Inr (map (\<lambda>c. JStr [c]) s)"
| "py_iter (JObj kv) = Inr (map (\<lambda>p. JStr (fst p)) kv)"
| "py_iter _ = Inl TypeError"

fun is_substring :: "string \<Rightarrow> string \<Rightarrow> bool" where
  "is_substring k [] = (k = [])"
| "is_substring k (c # cs) = (take (length k) (c # cs) = k \<or> is_substring k cs)"

text \<open>\<^verbatim>\<open>key in x\<close> with a string key.\<close>

fun py_contains :: "string \<Rightarrow> json \<Rightarrow> error + bool" where
  "py_contains k (JObj kv) = Inr (map_of kv k \<noteq> None)"
| "py_contains k (JArr xs) = Inr (JStr k \<in> set xs)"
| "py_contains k (JStr s) = Inr (is_substring k s)"
| "py_contains k _ = Inl TypeError"

section \<open>String operations\<close>

text \<open>
  \<^verbatim>\<open>s.split(sep)\<close> for a non-empty separator: the separators are found from the
  left and do not overlap. The result is never the empty list.
\<close>

function split_scan :: "string \<Rightarrow> string \<Rightarrow> string \<Rightarrow> string list" where
  "split_scan sep piece [] = [piece]"
| "split_scan sep piece (c # cs) =
     (if sep \<noteq> [] \<and> take (length sep) (c # cs) = sep
      then piece # split_scan sep [] (drop (length sep) (c # cs))
      else split_scan sep (piece @ [c]) cs)"
  by pat_completeness auto
termination
  by (relation "measure (\<lambda>(sep, piece, s). length s)") auto

definition py_split :: "string \<Rightarrow> string \<Rightarrow> string list" where
  "py_split s sep = split_scan sep [] s"

text \<open>\<^verbatim>\<open>s.lower()\<close> on code points below 256: A-Z and the accented capitals.\<close>

definition lower_char :: "char \<Rightarrow> char" where
  "lower_char c =
     (let n = (of_char c :: nat)
      in if (65 \<le> n \<and> n \<le> 90) \<or> (192 \<le> n \<and> n \<le> 222 \<and> n \<noteq> 215)
         then char_of (n + 32) else c)"

definition py_lower :: "string \<Rightarrow> string" where
  "py_lower s = map lower_char s"

text \<open>\<^verbatim>\<open>s.strip()\<close>: the characters for which \<^verbatim>\<open>str.isspace\<close> holds, below 256.\<close>

definition is_space :: "char \<Rightarrow> bool" where
  "is_space c = ((of_char c :: nat) \<in> {9, 10, 11, 12, 13, 28, 29, 30, 31, 32, 133, 160})"

definition py_strip :: "string \<Rightarrow> string" where
  "py_strip s = rev (dropWhile is_space (rev (dropWhile is_space s)))"

section \<open>Regular expressions\<close>

text \<open>
  The fragment of Python's \<^verbatim>\<open>re\<close> that \<^verbatim>\<open>categorize_domain\<close> uses: literal
  characters, the class of every character but one (\<^verbatim>\<open>[^.]\<close>, and \<^verbatim>\<open>.\<close>, which
  is every character but the line feed), concatenation, \<^verbatim>\<open>*\<close> and \<^verbatim>\<open>+\<close>.
  \<open>lang\<close> is the set of strings a pattern matches in full; \<open>re_match\<close> is
  \<^verbatim>\<open>re.match\<close>, which asks for a match of some prefix of the subject, computed by
  derivatives.
\<close>

datatype regex = Never | Empty | Chr char | AnyBut char
  | Cat regex regex | Alt regex regex | Star regex

definition Plus :: "regex \<Rightarrow> regex" where
  "Plus r = Cat r (Star r)"

inductive_set star :: "string set \<Rightarrow> string set" for A :: "string set" where
  star_nil: "[] \<in> star A"
| star_app: "u \<in> A \<Longrightarrow> v \<in> star A \<Longrightarrow> u @ v \<in> star A"

primrec lang :: "regex \<Rightarrow> string set" where
  "lang Never = {}"
| "lang Empty = {[]}"
| "lang (Chr c) = {[c]}"
| "lang (AnyBut c) = {[x] | x. x \<noteq> c}"
| "lang (Cat r s) = {u @ v | u v. u \<in> lang r \<and> v \<in> lang s}"
| "lang (Alt r s) = lang r \<union> lang s"
| "lang (Star r) = star (lang r)"

primrec nullable :: "regex \<Rightarrow> bool" where
  "nullable Never = False"
| "nullable Empty = True"
| "nullable (Chr c) = False"
| "nullable (AnyBut c) = False"
| "nullable (Cat r s) = (nullable r \<and> nullable s)"
| "nullable (Alt r s) = (nullable r \<or> nullable s)"
| "nullable (Star r) = True"

primrec deriv :: "char \<Rightarrow> regex \<Rightarrow> regex" where
  "deriv x Never = Never"
| "deriv x Empty = Never"
| "deriv x (Chr c) = (if x = c then Empty else Never)"
| "deriv x (AnyBut c) = (if x = c then Never else Empty)"
| "deriv x (Cat r s) =
     (if nullable r then Alt (Cat (deriv x r) s) (deriv x s) else Cat (deriv x r) s)"
| "deriv x (Alt r s) = Alt (deriv x r) (deriv x s)"
| "deriv x (Star r) = Cat (deriv x r) (Star r)"

fun re_match :: "regex \<Rightarrow> string \<Rightarrow> bool" where
  "re_match r [] = nullable r"
| "re_match r (x # xs) = (nullable r \<or> re_match (deriv x r) xs)"

text \<open>The pattern \<^verbatim>\<open>^\*\.[^.]+\..*\*\<close>; the anchor changes nothing under \<^verbatim>\<open>re.match\<close>.\<close>

definition wildcard_tld_pattern :: regex where
  "wildcard_tld_pattern =
     Cat (Chr CHR ''*'') (Cat (Chr CHR ''.'') (Cat (Plus (AnyBut CHR ''.''))
       (Cat (Chr CHR ''.'') (Cat (Star (AnyBut CHR 0x0A)) (Chr CHR ''*'')))))"

section \<open>The domain classifier\<close>

datatype category = Standard | Simple_wildcard | Wildcard_tld

definition categorize_domain :: "string \<Rightarrow> category option" where
  "categorize_domain domain =
     (if domain = [] \<or> CHR ''.'' \<notin> set domain then None
      else let clean_domain = hd (py_split domain '':'') in
        if re_match wildcard_tld_pattern clean_domain then Some Wildcard_tld
        else if take 2 clean_domain = ''*.'' \<and>
                (let parts = py_split clean_domain ''.''
                 in 3 \<le> length parts \<and> CHR ''*'' \<notin> set (last parts))
          then Some Simple_wildcard
        else if CHR ''*'' \<notin> set clean_domain then Some Standard
        else None)"

section \<open>The world: clock, semaphore, files and the log of effects\<close>

text \<open>
  A request is one of the two GETs the program issues: a page of the programs listing
  (\<^verbatim>\<open>page[number]\<close>, with \<^verbatim>\<open>page[size]\<close> fixed at 100), or the structured scopes
  of the program whose handle is interpolated into the URL.
\<close>

datatype request = ProgramsPage nat | StructuredScopes json

text \<open>
  What \<^verbatim>\<open>int(response.headers.get('Retry-After', 10))\<close> finds: no header, a header
  that \<^verbatim>\<open>int\<close> reads as an integer, or one on which it raises \<^verbatim>\<open>ValueError\<close>.
\<close>

datatype retry_after = NoHeader | IntHeader int | BadHeader

text \<open>
  What \<^verbatim>\<open>requests.get\<close> does: it raises (timeout, connection error), or returns a
  response with a status code, the header and a body; the body is \<open>None\<close> when
  \<^verbatim>\<open>response.json()\<close> raises on it.
\<close>

datatype http_result = Raised | Got int retry_after "json option"

datatype event = Acquire | Release | Sent request | Slept int

record cache_file =
  mtime :: int
  contents :: "error + json"

text \<open>
  The state a run works on. \<open>clock\<close> is the POSIX time, advanced by the sleeps (the
  time a request takes is not modelled). \<open>utcoffset\<close> is the local time zone: the
  offset of local time from UTC in force at a POSIX time. \<open>max_sleep\<close> is the
  platform's limit on \<^verbatim>\<open>time.sleep\<close>: the largest number of seconds it accepts at a
  given time (beyond it, it raises \<^verbatim>\<open>OverflowError\<close> or \<^verbatim>\<open>OSError\<close>). The
  program's own sleeps of fractions of a second lie below it on every platform and are
  taken as accepted; a number of seconds that a response header supplies is checked
  against it.
\<close>

record world =
  clock :: int
  permits :: int
  events :: "event list"
  files :: "string \<Rightarrow> cache_file option"
  utcoffset :: "int \<Rightarrow> int"
  max_sleep :: "int \<Rightarrow> int"

text \<open>The server answers the \<open>n\<close>-th request of the run (counted from 0).\<close>

type_synonym server = "nat \<Rightarrow> request \<Rightarrow> http_result"

fun sent_requests :: "event list \<Rightarrow> request list" where
  "sent_requests [] = []"
| "sent_requests (Sent r # es) = r # sent_requests es"
| "sent_requests (e # es) = sent_requests es"

section \<open>The cache store\<close>

text \<open>
  \<^verbatim>\<open>datetime.fromtimestamp(t)\<close> and \<^verbatim>\<open>datetime.now()\<close> are naive local datetimes:
  the POSIX time shifted by the offset in force at that time. Their difference is the
  elapsed time only when the two offsets are the same.
\<close>

definition fromtimestamp :: "world \<Rightarrow> int \<Rightarrow> int" where
  "fromtimestamp w t = t + utcoffset w t"

definition datetime_now :: "world \<Rightarrow> int" where
  "datetime_now w = fromtimestamp w (clock w)"

definition is_cache_valid :: "world \<Rightarrow> string \<Rightarrow> bool" where
  "is_cache_valid w cache_file =
     (case files w cache_file of
        None \<Rightarrow> False
      | Some f \<Rightarrow>
          (let cache_time = fromtimestamp w (mtime f)
           in datetime_now w - cache_time < timedelta_days CACHE_EXPIRY_DAYS))"

text \<open>
  \<^verbatim>\<open>json.dump\<close> of the programs into the cache file, then \<^verbatim>\<open>os.utime(path, None)\<close>,
  which sets the modification time to now. What was dumped is what a later
  \<^verbatim>\<open>json.load\<close> returns.
\<close>

definition write_cache :: "json list \<Rightarrow> world \<Rightarrow> world" where
  "write_cache programs w =
     w\<lparr>files := (files w)(PROGRAMS_CACHE_FILE :=
          Some \<lparr>mtime = clock w, contents = Inr (JArr programs)\<rparr>)\<rparr>"

text \<open>\<^verbatim>\<open>open(path, 'r')\<close> and \<^verbatim>\<open>json.load\<close>: either may raise.\<close>

definition read_cache :: "world \<Rightarrow> string \<Rightarrow> error + json" where
  "read_cache w path = (case files w path of None \<Rightarrow> Inl OSError | Some f \<Rightarrow> contents f)"

section \<open>The rate-limited HTTP client\<close>

definition time_sleep :: "int \<Rightarrow> world \<Rightarrow> world" where
  "time_sleep d w = w\<lparr>clock := clock w + d, events := events w @ [Slept d]\<rparr>"

definition send :: "server \<Rightarrow> request \<Rightarrow> world \<Rightarrow> http_result \<times> world" where
  "send srv req w =
     (srv (length (sent_requests (events w))) req, w\<lparr>events := events w @ [Sent req]\<rparr>)"

text \<open>
  Entering and leaving \<^verbatim>\<open>with request_semaphore\<close>. A call is modelled from the
  moment its acquire succeeds; the wait for a free slot is another thread's doing.
\<close>

definition acquire :: "world \<Rightarrow> world" where
  "acquire w = w\<lparr>permits := permits w - 1, events := events w @ [Acquire]\<rparr>"

definition release :: "world \<Rightarrow> world" where
  "release w = w\<lparr>permits := permits w + 1, events := events w @ [Release]\<rparr>"

text \<open>The sleep of the \<^verbatim>\<open>except\<close> branch: \<^verbatim>\<open>RATE_LIMIT_DELAY * (attempt + 1)\<close>.\<close>

definition backoff :: "nat \<Rightarrow> world \<Rightarrow> world" where
  "backoff attempt w = time_sleep (RATE_LIMIT_DELAY * (int attempt + 1)) w"

text \<open>
  \<^verbatim>\<open>time.sleep(retry_after)\<close> in the 429 branch: it raises \<^verbatim>\<open>ValueError\<close> on a
  negative number and \<^verbatim>\<open>OverflowError\<close> or \<^verbatim>\<open>OSError\<close> on one beyond the
  platform's limit; the \<^verbatim>\<open>except\<close> branch then sleeps its back-off instead.
\<close>

definition retry_sleep :: "nat \<Rightarrow> int \<Rightarrow> world \<Rightarrow> world" where
  "retry_sleep attempt retry_after w =
     (if 0 \<le> retry_after \<and> retry_after \<le> max_sleep w (clock w)
      then time_sleep (seconds retry_after) w
      else backoff attempt w)"

text \<open>
  The body of \<^verbatim>\<open>for attempt in range(MAX_RETRIES)\<close>, over the attempts still to
  run. Every exception raised inside the \<^verbatim>\<open>try\<close> (by the request, by
  \<^verbatim>\<open>response.json()\<close>, by \<^verbatim>\<open>int\<close> on the header, by \<^verbatim>\<open>time.sleep\<close>) ends
  in the \<^verbatim>\<open>except\<close> branch, which sleeps and lets the loop go on. A status below
  400 other than 200 matches no branch.
\<close>

fun request_attempts :: "server \<Rightarrow> request \<Rightarrow> nat list \<Rightarrow> world \<Rightarrow> json \<times> world" where
  "request_attempts srv req [] w = (JNull, w)"
| "request_attempts srv req (attempt # rest) w =
     (case send srv req w of
        (Raised, w1) \<Rightarrow> request_attempts srv req rest (backoff attempt w1)
      | (Got status hdr body, w1) \<Rightarrow>
          if status = 200 then
            (case body of
               Some j \<Rightarrow> (j, w1)
             | None \<Rightarrow> request_attempts srv req rest (backoff attempt w1))
          else if status = 429 then
            (case hdr of
               NoHeader \<Rightarrow> request_attempts srv req rest (retry_sleep attempt 10 w1)
             | IntHeader n \<Rightarrow> request_attempts srv req rest (retry_sleep attempt n w1)
             | BadHeader \<Rightarrow> request_attempts srv req rest (backoff attempt w1))
          else if 400 \<le> status then (JNull, w1)
          else request_attempts srv req rest w1)"

definition make_api_request :: "server \<Rightarrow> request \<Rightarrow> world \<Rightarrow> json \<times> world" where
  "make_api_request srv req w =
     (case request_attempts srv req [0..<MAX_RETRIES] (acquire w) of
        (r, w1) \<Rightarrow> (r, release w1))"

section \<open>The program paginator\<close>

text \<open>
  The \<^verbatim>\<open>while True\<close> loop of \<^verbatim>\<open>fetch_all_programs\<close>. It need not end: the value
  \<open>None\<close> stands for a loop that runs forever. An exception raised by the body
  leaves the function, so that the cache is not written.
\<close>

partial_function (option) fetch_pages ::
  "server \<Rightarrow> nat \<Rightarrow> json list \<Rightarrow> world \<Rightarrow> ((error + json list) \<times> world) option" where
  "fetch_pages srv page programs w =
     (case make_api_request srv (ProgramsPage page) w of
        (data, w1) \<Rightarrow>
          if \<not> truthy data then Some (Inr programs, w1)
          else (case py_get data ''data'' JNull of
             Inl e \<Rightarrow> Some (Inl e, w1)
           | Inr d \<Rightarrow>
               if \<not> truthy d then Some (Inr programs, w1)
               else (case and_then (py_index data ''data'') py_iter of
                  Inl e \<Rightarrow> Some (Inl e, w1)
                | Inr items \<Rightarrow>
                    (case and_then (py_contains ''links'' data) (\<lambda>has_links.
                            if has_links
                            then and_then (py_index data ''links'') (py_contains ''next'')
                            else Inr False) of
                       Inl e \<Rightarrow> Some (Inl e, w1)
                     | Inr has_next \<Rightarrow>
                         if has_next
                         then fetch_pages srv (page + 1) (programs @ items)
                                (time_sleep RATE_LIMIT_DELAY w1)
                         else Some (Inr (programs @ items), w1)))))"

definition fetch_all_programs :: "server \<Rightarrow> world \<Rightarrow> ((error + json) \<times> world) option" where
  "fetch_all_programs srv w =
     (if is_cache_valid w PROGRAMS_CACHE_FILE
      then Some (read_cache w PROGRAMS_CACHE_FILE, w)
      else (case fetch_pages srv 1 [] w of
         None \<Rightarrow> None
       | Some (Inl e, w1) \<Rightarrow> Some (Inl e, w1)
       | Some (Inr programs, w1) \<Rightarrow> Some (Inr (JArr programs), write_cache programs w1)))"

section \<open>The scope extractor\<close>

record domains =
  standard :: "string set"
  simple_wildcard :: "string set"
  wildcard_tld :: "string set"

definition empty_domains :: domains where
  "empty_domains = \<lparr>standard = {}, simple_wildcard = {}, wildcard_tld = {}\<rparr>"

text \<open>\<^verbatim>\<open>domains[category].add(domain)\<close>\<close>

fun add_domain :: "category \<Rightarrow> string \<Rightarrow> domains \<Rightarrow> domains" where
  "add_domain Standard d ds = ds\<lparr>standard := insert d (standard ds)\<rparr>"
| "add_domain Simple_wildcard d ds = ds\<lparr>simple_wildcard := insert d (simple_wildcard ds)\<rparr>"
| "add_domain Wildcard_tld d ds = ds\<lparr>wildcard_tld := insert d (wildcard_tld ds)\<rparr>"

text \<open>\<^verbatim>\<open>url.split('//')[-1].split('/')[0].lower().strip()\<close>; only a string has \<^verbatim>\<open>split\<close>.\<close>

fun host_of :: "json \<Rightarrow> error + string" where
  "host_of (JStr url) = Inr (py_strip (py_lower (hd (py_split (last (py_split url ''//'')) ''/''))))"
| "host_of _ = Inl AttributeError"

text \<open>The body of \<^verbatim>\<open>for scope in data['data']\<close>.\<close>

definition scope_entry :: "json \<Rightarrow> domains \<Rightarrow> error + domains" where
  "scope_entry scope ds =
     and_then (py_get scope ''attributes'' (JObj [])) (\<lambda>attrs.
     and_then (py_get attrs ''asset_type'' JNull) (\<lambda>asset_type.
       if asset_type = JStr ''URL'' then
         and_then (py_index scope ''attributes'') (\<lambda>attrs'.
         and_then (py_index attrs' ''asset_identifier'') (\<lambda>url.
         and_then (host_of url) (\<lambda>domain.
           if domain \<noteq> [] then
             (case categorize_domain domain of
                Some category \<Rightarrow> Inr (add_domain category domain ds)
              | None \<Rightarrow> Inr ds)
           else Inr ds)))
       else Inr ds))"

fun scan_scopes :: "json list \<Rightarrow> domains \<Rightarrow> error + domains" where
  "scan_scopes [] ds = Inr ds"
| "scan_scopes (scope # rest) ds =
     (case scope_entry scope ds of
        Inl e \<Rightarrow> Inl e
      | Inr ds' \<Rightarrow> scan_scopes rest ds')"

definition extract_domains_from_program ::
  "server \<Rightarrow> json \<Rightarrow> world \<Rightarrow> (error + domains) \<times> world" where
  "extract_domains_from_program srv program w =
     (case and_then (py_get program ''attributes'' (JObj [])) (\<lambda>attrs.
             py_get attrs ''handle'' JNull) of
        Inl e \<Rightarrow> (Inl e, w)
      | Inr handle \<Rightarrow>
          if \<not> truthy handle then (Inr empty_domains, w)
          else (case make_api_request srv (StructuredScopes handle) w of
             (data, w1) \<Rightarrow>
               if \<not> truthy data then (Inr empty_domains, w1)
               else (case py_get data ''data'' JNull of
                  Inl e \<Rightarrow> (Inl e, w1)
                | Inr d \<Rightarrow>
                    if \<not> truthy d then (Inr empty_domains, w1)
                    else (case and_then (py_index data ''data'') py_iter of
                       Inl e \<Rightarrow> (Inl e, w1)
                     | Inr scopes \<Rightarrow> (scan_scopes scopes empty_domains, w1)))))"

section \<open>The aggregator\<close>

text \<open>
  The merge of \<^verbatim>\<open>main\<close>: \<^verbatim>\<open>all_domains[category].update(domains[category])\<close> for
  the three categories of a program's result, over the results in the order in which
  \<^verbatim>\<open>as_completed\<close> hands them over.
\<close>

definition merge_domains :: "domains \<Rightarrow> domains \<Rightarrow> domains" where
  "merge_domains all_domains ds =
     \<lparr>standard = standard all_domains \<union> standard ds,
      simple_wildcard = simple_wildcard all_domains \<union> simple_wildcard ds,
      wildcard_tld = wildcard_tld all_domains \<union> wildcard_tld ds\<rparr>"

definition aggregate :: "domains list \<Rightarrow> domains" where
  "aggregate results = foldl merge_domains empty_domains results"

section \<open>Listing responses\<close>

text \<open>
  The notions in which the paginator's behaviour is stated: the items of a page (none
  when the client returned \<^verbatim>\<open>None\<close>, when there is no \<^verbatim>\<open>data\<close> field or when it
  is empty), whether the response has a \<^verbatim>\<open>links.next\<close> field, and the shape of a
  response of the listing endpoint as the client hands it over: \<^verbatim>\<open>None\<close>, or an
  object whose \<^verbatim>\<open>data\<close>, if present, is an array and whose \<^verbatim>\<open>links\<close>, if present,
  is an object.
\<close>

definition page_items :: "json \<Rightarrow> json list" where
  "page_items data =
     (case data of
        JObj kv \<Rightarrow> (case map_of kv ''data'' of Some (JArr xs) \<Rightarrow> xs | _ \<Rightarrow> [])
      | _ \<Rightarrow> [])"

definition has_next_link :: "json \<Rightarrow> bool" where
  "has_next_link data =
     (case data of
        JObj kv \<Rightarrow> (case map_of kv ''links'' of Some (JObj l) \<Rightarrow> map_of l ''next'' \<noteq> None | _ \<Rightarrow> False)
      | _ \<Rightarrow> False)"

definition listing_response :: "json \<Rightarrow> bool" where
  "listing_response data =
     (case data of
        JNull \<Rightarrow> True
      | JObj kv \<Rightarrow>
          (case map_of kv ''data'' of None \<Rightarrow> True | Some (JArr xs) \<Rightarrow> True | _ \<Rightarrow> False)
          \<and> (case map_of kv ''links'' of None \<Rightarrow> True | Some (JObj l) \<Rightarrow> True | _ \<Rightarrow> False)
      | _ \<Rightarrow> False)"

section \<open>Example inputs\<close>

text \<open>A zone without clock changes, and a platform limit on sleeps.\<close>

definition utc :: "int \<Rightarrow> int" where
  "utc t = 0"

definition sleep_limit :: "int \<Rightarrow> int" where
  "sleep_limit t = 100000000"

text \<open>A world at rest: nothing sent, all ten slots free, no cache file.\<close>

definition idle_world :: world where
  "idle_world = \<lparr>clock = 0, permits = 10, events = [], files = Map.empty,
                  utcoffset = utc, max_sleep = sleep_limit\<rparr>"

text \<open>
  A server that answers the first request with 429 and \<^verbatim>\<open>Retry-After: 3\<close>, drops
  the next two connections and would answer the fourth request with 200.
\<close>

definition throttling_server :: server where
  "throttling_server n req =
     (if n = 0 then Got 429 (IntHeader 3) None
      else if n < 3 then Raised
      else Got 200 NoHeader (Some (JObj [(''data'', JArr [])])))"

text \<open>A server that answers 429 with \<^verbatim>\<open>Retry-After: 3\<close> once, then 200.\<close>

definition throttled_once_server :: server where
  "throttled_once_server n req =
     (if n = 0 then Got 429 (IntHeader 3) None
      else Got 200 NoHeader (Some (JObj [(''data'', JArr [JObj [(''id'', JStr ''1'')]])])))"

text \<open>The results of two programs.\<close>

definition acme_domains :: domains where
  "acme_domains = \<lparr>standard = {''acme.example''}, simple_wildcard = {''*.acme.example''},
                    wildcard_tld = {}\<rparr>"

definition globex_domains :: domains where
  "globex_domains = \<lparr>standard = {''globex.example'', ''acme.example''}, simple_wildcard = {},
                      wildcard_tld = {''*.globex.*''}\<rparr>"

text \<open>A server that cannot be reached: every request raises.\<close>

definition down_server :: server where
  "down_server n req = Raised"

text \<open>
  A listing of 137 programs in two pages of 100 and 37; the second page has no
  \<^verbatim>\<open>links.next\<close>.
\<close>

definition program_stub :: json where
  "program_stub = JObj [(''attributes'', JObj [(''handle'', JStr ''acme'')])]"

definition first_page :: json where
  "first_page = JObj [(''data'', JArr (replicate 100 program_stub)),
                      (''links'', JObj [(''next'', JStr ''?page=2'')])]"

definition second_page :: json where
  "second_page = JObj [(''data'', JArr (replicate 37 program_stub)),
                       (''links'', JObj [(''prev'', JStr ''?page=1'')])]"

definition two_page_server :: server where
  "two_page_server n req =
     (case req of
        ProgramsPage p \<Rightarrow>
          if p = 1 then Got 200 NoHeader (Some first_page)
          else if p = 2 then Got 200 NoHeader (Some second_page)
          else Got 200 NoHeader (Some (JObj [(''data'', JArr [])]))
      | StructuredScopes h \<Rightarrow> Got 404 NoHeader None)"

text \<open>A world whose cache file is one minute old and does not decode as JSON.\<close>

definition corrupt_cache_world :: world where
  "corrupt_cache_world =
     \<lparr>clock = seconds 60, permits = 10, events = [],
      files = Map.empty(PROGRAMS_CACHE_FILE \<mapsto> \<lparr>mtime = 0, contents = Inl JSONDecodeError\<rparr>),
      utcoffset = utc, max_sleep = sleep_limit\<rparr>"

text \<open>
  The zone of New York in 2024: four hours behind UTC from 10 March 07:00 UTC to
  3 November 06:00 UTC, five hours behind otherwise.
\<close>

definition new_york_2024 :: "int \<Rightarrow> int" where
  "new_york_2024 t =
     (if seconds 1710054000 \<le> t \<and> t < seconds 1730613600
      then seconds (- 14400) else seconds (- 18000))"

text \<open>
  New York on 14 November 2024, 12:30 UTC, with a cache file written on 15 October,
  12:00 UTC: the file is 30 days and 30 minutes old.
\<close>

definition november_world :: world where
  "november_world =
     \<lparr>clock = seconds 1728993600 + timedelta_days 30 + seconds 1800, permits = 10, events = [],
      files = Map.empty(PROGRAMS_CACHE_FILE \<mapsto>
                \<lparr>mtime = seconds 1728993600, contents = Inr (JArr [])\<rparr>),
      utcoffset = new_york_2024, max_sleep = sleep_limit\<rparr>"

text \<open>
  New York on 1 March 2024, 12:00 UTC, without a cache file; the world after a run
  against the unreachable server; and that world 29 days, 23 hours and 30 minutes
  after the end of that run.
\<close>

definition march_world :: world where
  "march_world =
     \<lparr>clock = seconds 1709294400, permits = 10, events = [], files = Map.empty,
      utcoffset = new_york_2024, max_sleep = sleep_limit\<rparr>"

definition march_cached :: world where
  "march_cached =
     write_cache [] (snd (make_api_request down_server (ProgramsPage 1) march_world))"

definition march_later :: world where
  "march_later =
     march_cached\<lparr>clock := clock march_cached + (timedelta_days 30 - seconds 1800)\<rparr>"


text \<open>Scope entries: the one of claim C3, one without an identifier, one with a number.\<close>

definition url_scope :: json where
  "url_scope = JObj [(''attributes'',
     JObj [(''asset_type'', JStr ''URL''),
           (''asset_identifier'', JStr ''https://Foo.EXAMPLE.com:443/path'')])]"

definition scope_without_identifier :: json where
  "scope_without_identifier = JObj [(''attributes'', JObj [(''asset_type'', JStr ''URL'')])]"

definition scope_with_number :: json where
  "scope_with_number = JObj [(''attributes'',
     JObj [(''asset_type'', JStr ''URL''), (''asset_identifier'', JNum 8080)])]"

text \<open>A server that answers every structured-scopes request with the given entries.\<close>

definition scope_server :: "json list \<Rightarrow> server" where
  "scope_server scopes n req =
     (case req of
        StructuredScopes h \<Rightarrow> Got 200 NoHeader (Some (JObj [(''data'', JArr scopes)]))
      | ProgramsPage p \<Rightarrow> Got 404 NoHeader None)"


section \<open>Properties of the cache store\<close>

lemma is_cache_valid_absent:
  "files w path = None \<Longrightarrow> \<not> is_cache_valid w path"
  by (simp add: is_cache_valid_def)

lemma is_cache_valid_same_offset:
  assumes "files w path = Some f"
    and "utcoffset w (clock w) = utcoffset w (mtime f)"
  shows "is_cache_valid w path \<longleftrightarrow> clock w - mtime f < timedelta_days 30"
  using assms
  by (simp add: is_cache_valid_def datetime_now_def fromtimestamp_def CACHE_EXPIRY_DAYS_def)

text \<open>
  Claim C9. \<^verbatim>\<open>is_cache_valid\<close> subtracts two naive local datetimes, so its answer is
  the claimed one (the file exists and now minus its modification time is less than 30
  days) when the zone's offset is the same at both times, and is off by the change of
  the offset otherwise: in New York, a file written on 15 October 2024 is found valid
  30 days and 30 minutes later, after the clocks have gone back.
\<close>

theorem is_cache_valid_across_clock_change:
  "files november_world PROGRAMS_CACHE_FILE =
     Some \<lparr>mtime = seconds 1728993600, contents = Inr (JArr [])\<rparr>
   \<and> clock november_world - seconds 1728993600 = timedelta_days 30 + seconds 1800
   \<and> is_cache_valid november_world PROGRAMS_CACHE_FILE"
  by (simp add: november_world_def is_cache_valid_def datetime_now_def fromtimestamp_def
      new_york_2024_def CACHE_EXPIRY_DAYS_def timedelta_days_def seconds_def)

section \<open>Properties of the aggregator\<close>

lemma foldl_merge_standard:
  "standard (foldl merge_domains a rs) = standard a \<union> \<Union>(standard ` set rs)"
  by (induction rs arbitrary: a) (auto simp: merge_domains_def)

lemma foldl_merge_simple:
  "simple_wildcard (foldl merge_domains a rs) =
     simple_wildcard a \<union> \<Union>(simple_wildcard ` set rs)"
  by (induction rs arbitrary: a) (auto simp: merge_domains_def)

lemma foldl_merge_tld:
  "wildcard_tld (foldl merge_domains a rs) = wildcard_tld a \<union> \<Union>(wildcard_tld ` set rs)"
  by (induction rs arbitrary: a) (auto simp: merge_domains_def)

lemma aggregate_set_eq:
  assumes "set rs = set rs'"
  shows "aggregate rs = aggregate rs'"
proof -
  have "standard (aggregate rs) = standard (aggregate rs')"
    and "simple_wildcard (aggregate rs) = simple_wildcard (aggregate rs')"
    and "wildcard_tld (aggregate rs) = wildcard_tld (aggregate rs')"
    using assms
    by (simp_all add: aggregate_def foldl_merge_standard foldl_merge_simple foldl_merge_tld)
  then show ?thesis by simp
qed

text \<open>
  Claim C7. For a fixed collection of per-program results, every permutation of the
  completion order gives the same three final sets; the merge is commutative,
  associative and idempotent.
\<close>

theorem merge_order_independent:
  "(mset rs = mset rs' \<longrightarrow> aggregate rs = aggregate rs')
   \<and> merge_domains a b = merge_domains b a
   \<and> merge_domains (merge_domains a b) c = merge_domains a (merge_domains b c)
   \<and> merge_domains a a = a"
proof -
  have "mset rs = mset rs' \<Longrightarrow> aggregate rs = aggregate rs'"
    using aggregate_set_eq mset_eq_setD by blast
  then show ?thesis
    by (auto simp: merge_domains_def)
qed

theorem merge_order_independent_witness:
  "mset [acme_domains, globex_domains] = mset [globex_domains, acme_domains]
   \<and> aggregate [acme_domains, globex_domains] = aggregate [globex_domains, acme_domains]"
  using merge_order_independent [of "[acme_domains, globex_domains]"
      "[globex_domains, acme_domains]"]
  by simp

section \<open>Properties of the HTTP client\<close>

lemma upt_retries: "[0..<MAX_RETRIES] = [0, 1, 2]"
  by (simp add: MAX_RETRIES_def upt_rec)

lemma sent_requests_append: "sent_requests (xs @ ys) = sent_requests xs @ sent_requests ys"
  by (induction xs rule: sent_requests.induct) simp_all

lemma idle_world_sel [simp]:
  "events idle_world = []" "clock idle_world = 0" "permits idle_world = 10"
  "max_sleep idle_world t = 100000000" "utcoffset idle_world t = 0"
  by (simp_all add: idle_world_def sleep_limit_def utc_def)

lemma make_api_request_alt:
  "make_api_request srv req w =
     (fst (request_attempts srv req [0, 1, 2] (acquire w)),
      release (snd (request_attempts srv req [0, 1, 2] (acquire w))))"
  by (simp add: make_api_request_def upt_retries case_prod_beta)

lemma attempts_events:
  "\<exists>mid. events (snd (request_attempts srv req as w)) = events w @ mid
         \<and> Acquire \<notin> set mid \<and> Release \<notin> set mid"
proof (induction as arbitrary: w)
  case Nil
  show ?case by simp
next
  case (Cons a as)
  have step: "\<And>w'::world.
     (\<exists>m. events w' = events w @ m \<and> Acquire \<notin> set m \<and> Release \<notin> set m) \<Longrightarrow>
     \<exists>mid. events (snd (request_attempts srv req as w')) = events w @ mid
         \<and> Acquire \<notin> set mid \<and> Release \<notin> set mid"
  proof -
    fix w' :: world
    assume "\<exists>m. events w' = events w @ m \<and> Acquire \<notin> set m \<and> Release \<notin> set m"
    then obtain m where m: "events w' = events w @ m" "Acquire \<notin> set m" "Release \<notin> set m"
      by blast
    from Cons.IH [of w'] obtain mid where
      "events (snd (request_attempts srv req as w')) = events w' @ mid"
      "Acquire \<notin> set mid" "Release \<notin> set mid" by blast
    with m show "\<exists>mid. events (snd (request_attempts srv req as w')) = events w @ mid
         \<and> Acquire \<notin> set mid \<and> Release \<notin> set mid"
      by (intro exI [of _ "m @ mid"]) simp
  qed
  show ?case
    by (auto simp: send_def retry_sleep_def backoff_def time_sleep_def
        split: http_result.splits option.splits retry_after.splits intro!: step)
qed

lemma attempts_permits:
  "permits (snd (request_attempts srv req as w)) = permits w"
  by (induction as arbitrary: w)
     (auto simp: send_def retry_sleep_def backoff_def time_sleep_def
      split: http_result.splits option.splits retry_after.splits)

text \<open>
  Claim C8. The semaphore has 600 div 60 = 10 slots, and a call of
  \<^verbatim>\<open>make_api_request\<close> acquires once at its start and releases once at its end,
  whatever the server does (failed requests and raised exceptions included): the
  number of free slots after the call is the number before it.
\<close>

theorem semaphore_balanced:
  "semaphore_capacity = 10
   \<and> permits (snd (make_api_request srv req w)) = permits w
   \<and> (\<exists>mid. events (snd (make_api_request srv req w)) = events w @ [Acquire] @ mid @ [Release]
        \<and> Acquire \<notin> set mid \<and> Release \<notin> set mid)"
proof -
  obtain mid where mid:
    "events (snd (request_attempts srv req [0, 1, 2] (acquire w))) = events (acquire w) @ mid"
    "Acquire \<notin> set mid" "Release \<notin> set mid"
    using attempts_events by blast
  have "permits (snd (request_attempts srv req [0, 1, 2] (acquire w))) = permits (acquire w)"
    by (rule attempts_permits)
  with mid show ?thesis
    unfolding make_api_request_alt
    by (simp add: release_def acquire_def semaphore_capacity_def MAX_REQUESTS_PER_MINUTE_def)
qed

lemma attempts_sent_bound:
  "length (sent_requests (events (snd (request_attempts srv req as w))))
     \<le> length (sent_requests (events w)) + length as"
proof (induction as arbitrary: w)
  case Nil
  show ?case by simp
next
  case (Cons a as)
  have step: "\<And>w'::world.
     length (sent_requests (events w')) = Suc (length (sent_requests (events w))) \<Longrightarrow>
     length (sent_requests (events (snd (request_attempts srv req as w'))))
       \<le> Suc (length (sent_requests (events w)) + length as)"
    using Cons.IH by (metis add_Suc)
  show ?case
    by (auto simp: send_def retry_sleep_def backoff_def time_sleep_def sent_requests_append
        split: http_result.splits option.splits retry_after.splits intro!: step)
qed

lemma attempts_429:
  assumes "srv (length (sent_requests (events w))) req = Got 429 hdr body"
    and "hdr = NoHeader \<and> d = 10 \<or> hdr = IntHeader d"
    and "0 \<le> d" "d \<le> max_sleep w (clock w)"
  shows "request_attempts srv req (attempt # rest) w =
         request_attempts srv req rest (time_sleep (seconds d) (snd (send srv req w)))"
  using assms by (auto simp: send_def retry_sleep_def)

lemma make_api_request_sent_bound:
  "length (sent_requests (events (snd (make_api_request srv req w))))
     \<le> length (sent_requests (events w)) + 3"
proof -
  have "length (sent_requests (events (snd (request_attempts srv req [0, 1, 2] (acquire w)))))
     \<le> length (sent_requests (events (acquire w))) + length [0::nat, 1, 2]"
    by (rule attempts_sent_bound)
  then show ?thesis
    unfolding make_api_request_alt
    by (simp add: release_def acquire_def sent_requests_append)
qed

lemma single_429_then_200:
  assumes "srv (length (sent_requests (events w))) req = Got 429 (IntHeader 3) b"
    and "srv (Suc (length (sent_requests (events w)))) req = Got 200 h (Some j)"
    and "3 \<le> max_sleep w (clock w)"
  shows "make_api_request srv req w =
     (j, w\<lparr>clock := clock w + seconds 3,
           events := events w @ [Acquire, Sent req, Slept (seconds 3), Sent req, Release]\<rparr>)"
  using assms
  by (simp add: make_api_request_alt send_def retry_sleep_def acquire_def release_def
      time_sleep_def sent_requests_append)

text \<open>
  Claim C2, as the claim states it, fails: the retry after a 429 is the next iteration
  of \<^verbatim>\<open>for attempt in range(MAX_RETRIES)\<close>, so it uses up an attempt. Against a
  server that answers 429 (\<^verbatim>\<open>Retry-After: 3\<close>) once and then drops two connections,
  the call gives up after three requests, having tolerated two network failures and
  not three: the back-off sleeps are those of attempts 2 and 3 (0.2 s and 0.3 s),
  and the fourth request, which would succeed, is never sent.
\<close>

theorem retry_429_consumes_attempt:
  "fst (make_api_request throttling_server (ProgramsPage 1) idle_world) = JNull
   \<and> events (snd (make_api_request throttling_server (ProgramsPage 1) idle_world)) =
       [Acquire, Sent (ProgramsPage 1), Slept 3000000,
        Sent (ProgramsPage 1), Slept 200000,
        Sent (ProgramsPage 1), Slept 300000, Release]"
  by (simp add: make_api_request_alt throttling_server_def
      send_def retry_sleep_def acquire_def release_def backoff_def time_sleep_def seconds_def
      RATE_LIMIT_DELAY_def MAX_REQUESTS_PER_MINUTE_def sent_requests_append)

text \<open>
  Claim C2, amended. On a 429 the client takes the \<^verbatim>\<open>Retry-After\<close> value (10 when
  the header is absent) and, when that is a number of seconds that \<^verbatim>\<open>time.sleep\<close>
  accepts (not negative and not beyond the platform's limit), sleeps that long and goes
  on to the next iteration of its loop: the same request is sent again if an iteration
  is left, and after a 429 on the last attempt the call returns \<^verbatim>\<open>None\<close> without a
  retry. The 429 thus takes one of the three attempts; these are shared with the network
  failures, and no call sends more than three requests. A single 429 with
  \<^verbatim>\<open>Retry-After: 3\<close> (a sleep that the platform accepts) followed by a 200 gives
  exactly one retry after a sleep of 3 seconds, and the call returns the body.
\<close>

theorem retry_429_shares_budget:
  "(srv (length (sent_requests (events w))) req = Got 429 hdr body
      \<and> (hdr = NoHeader \<and> d = 10 \<or> hdr = IntHeader d)
      \<and> 0 \<le> d \<and> d \<le> max_sleep w (clock w)
    \<longrightarrow> request_attempts srv req (attempt # rest) w =
         request_attempts srv req rest (time_sleep (seconds d) (snd (send srv req w)))
      \<and> request_attempts srv req [attempt] w =
         (JNull, time_sleep (seconds d) (snd (send srv req w))))
   \<and> length (sent_requests (events (snd (make_api_request srv req w))))
       \<le> length (sent_requests (events w)) + 3
   \<and> (srv (length (sent_requests (events w))) req = Got 429 (IntHeader 3) b
      \<and> srv (Suc (length (sent_requests (events w)))) req = Got 200 h (Some j)
      \<and> 3 \<le> max_sleep w (clock w)
    \<longrightarrow> make_api_request srv req w =
         (j, w\<lparr>clock := clock w + seconds 3,
               events := events w @ [Acquire, Sent req, Slept (seconds 3), Sent req, Release]\<rparr>))"
proof (intro conjI impI)
  assume a: "srv (length (sent_requests (events w))) req = Got 429 hdr body
      \<and> (hdr = NoHeader \<and> d = 10 \<or> hdr = IntHeader d)
      \<and> 0 \<le> d \<and> d \<le> max_sleep w (clock w)"
  then show "request_attempts srv req (attempt # rest) w =
         request_attempts srv req rest (time_sleep (seconds d) (snd (send srv req w)))"
    using attempts_429 by blast
  from a have "request_attempts srv req [attempt] w =
         request_attempts srv req [] (time_sleep (seconds d) (snd (send srv req w)))"
    using attempts_429 by blast
  then show "request_attempts srv req [attempt] w =
         (JNull, time_sleep (seconds d) (snd (send srv req w)))"
    by simp
next
  show "length (sent_requests (events (snd (make_api_request srv req w))))
       \<le> length (sent_requests (events w)) + 3"
    by (rule make_api_request_sent_bound)
next
  assume "srv (length (sent_requests (events w))) req = Got 429 (IntHeader 3) b
      \<and> srv (Suc (length (sent_requests (events w)))) req = Got 200 h (Some j)
      \<and> 3 \<le> max_sleep w (clock w)"
  then show "make_api_request srv req w =
         (j, w\<lparr>clock := clock w + seconds 3,
               events := events w @ [Acquire, Sent req, Slept (seconds 3), Sent req, Release]\<rparr>)"
    using single_429_then_200 by blast
qed

theorem retry_429_shares_budget_witness:
  "request_attempts throttled_once_server (ProgramsPage 1) [0, 1, 2] idle_world =
     request_attempts throttled_once_server (ProgramsPage 1) [1, 2]
       (time_sleep (seconds 3) (snd (send throttled_once_server (ProgramsPage 1) idle_world)))
   \<and> request_attempts throttled_once_server (ProgramsPage 1) [0] idle_world =
       (JNull, time_sleep (seconds 3) (snd (send throttled_once_server (ProgramsPage 1) idle_world)))
   \<and> length (sent_requests (events (snd (make_api_request throttled_once_server
         (ProgramsPage 1) idle_world)))) \<le> 3
   \<and> make_api_request throttled_once_server (ProgramsPage 1) idle_world =
       (JObj [(''data'', JArr [JObj [(''id'', JStr ''1'')]])],
        idle_world\<lparr>clock := seconds 3,
          events := [Acquire, Sent (ProgramsPage 1), Slept (seconds 3),
                     Sent (ProgramsPage 1), Release]\<rparr>)"
  using retry_429_shares_budget [where srv = throttled_once_server and w = idle_world
      and req = "ProgramsPage 1" and hdr = "IntHeader 3" and body = None and d = 3
      and attempt = 0 and rest = "[1, 2]" and b = None and h = NoHeader
      and j = "JObj [(''data'', JArr [JObj [(''id'', JStr ''1'')]])]"]
  by (simp add: throttled_once_server_def)

section \<open>Properties of the paginator\<close>







lemma fetch_pages_step:
  assumes "make_api_request srv (ProgramsPage page) w = (data, w1)"
    and "listing_response data"
  shows "fetch_pages srv page ps w =
     (if page_items data = [] \<or> \<not> has_next_link data
      then Some (Inr (ps @ page_items data), w1)
      else fetch_pages srv (page + 1) (ps @ page_items data) (time_sleep RATE_LIMIT_DELAY w1))"
  using assms
  by (subst fetch_pages.simps)
     (auto simp: listing_response_def page_items_def has_next_link_def and_then_def
      split: json.splits option.splits)

lemma make_api_request_200:
  assumes "srv (length (sent_requests (events w))) req = Got 200 h (Some j)"
  shows "make_api_request srv req w = (j, w\<lparr>events := events w @ [Acquire, Sent req, Release]\<rparr>)"
  using assms
  by (simp add: make_api_request_alt send_def acquire_def release_def sent_requests_append)

lemma make_api_request_down:
  assumes "\<And>n. srv n req = Raised"
  shows "fst (make_api_request srv req w) = JNull"
  using assms
  by (simp add: make_api_request_alt send_def)

lemma fetch_two_pages:
  assumes n: "n = length (sent_requests (events w))"
    and p1: "srv n (ProgramsPage 1) = Got 200 h1 (Some page1)"
    and p2: "srv (Suc n) (ProgramsPage 2) = Got 200 h2 (Some page2)"
    and wf: "listing_response page1" "listing_response page2"
    and items: "page_items page1 \<noteq> []" "page_items page2 \<noteq> []"
    and links: "has_next_link page1" "\<not> has_next_link page2"
  shows "fetch_pages srv 1 [] w =
     Some (Inr (page_items page1 @ page_items page2),
           w\<lparr>clock := clock w + RATE_LIMIT_DELAY,
             events := events w @ [Acquire, Sent (ProgramsPage 1), Release, Slept RATE_LIMIT_DELAY,
                                   Acquire, Sent (ProgramsPage 2), Release]\<rparr>)"
proof -
  define w1 where "w1 = w\<lparr>events := events w @ [Acquire, Sent (ProgramsPage 1), Release]\<rparr>"
  define w2 where "w2 = time_sleep RATE_LIMIT_DELAY w1"
  have c1: "make_api_request srv (ProgramsPage 1) w = (page1, w1)"
    using p1 n by (simp add: make_api_request_200 w1_def)
  have "length (sent_requests (events w2)) = Suc n"
    by (simp add: w2_def w1_def time_sleep_def n sent_requests_append)
  then have c2: "make_api_request srv (ProgramsPage 2) w2 =
      (page2, w2\<lparr>events := events w2 @ [Acquire, Sent (ProgramsPage 2), Release]\<rparr>)"
    using p2 by (simp add: make_api_request_200)
  have "fetch_pages srv 1 [] w = fetch_pages srv (1 + 1) ([] @ page_items page1) w2"
    unfolding w2_def fetch_pages_step [OF c1 wf(1), of "[]"] using items(1) links(1) by simp
  also have "\<dots> = fetch_pages srv 2 (page_items page1) w2"
    by (simp only: one_add_one append_Nil)
  also have "\<dots> = Some (Inr (page_items page1 @ page_items page2),
        w2\<lparr>events := events w2 @ [Acquire, Sent (ProgramsPage 2), Release]\<rparr>)"
    unfolding fetch_pages_step [OF c2 wf(2), of "page_items page1"] using links(2) by simp
  finally show ?thesis
    by (simp add: w2_def w1_def time_sleep_def)
qed

text \<open>
  Claim C6. With the cache invalid, the paginator stops exactly when a page has no data
  (which includes the client returning \<^verbatim>\<open>None\<close>) or when the response has no
  \<^verbatim>\<open>links.next\<close>; it then returns what it has accumulated, and otherwise requests
  the next page. Against a server that serves pages of 100 and 37 programs, the second
  without a next link, it returns exactly the 137 programs and sends the two listing
  requests and no other.
\<close>

theorem pagination_stops:
  "(make_api_request srv (ProgramsPage page) w = (data, w1) \<and> listing_response data \<longrightarrow>
      fetch_pages srv page ps w =
        (if page_items data = [] \<or> \<not> has_next_link data
         then Some (Inr (ps @ page_items data), w1)
         else fetch_pages srv (page + 1) (ps @ page_items data) (time_sleep RATE_LIMIT_DELAY w1)))
   \<and> (\<not> is_cache_valid w PROGRAMS_CACHE_FILE
      \<and> srv (length (sent_requests (events w))) (ProgramsPage 1) = Got 200 h1 (Some page1)
      \<and> srv (Suc (length (sent_requests (events w)))) (ProgramsPage 2) = Got 200 h2 (Some page2)
      \<and> listing_response page1 \<and> listing_response page2
      \<and> length (page_items page1) = 100 \<and> length (page_items page2) = 37
      \<and> has_next_link page1 \<and> \<not> has_next_link page2 \<longrightarrow>
      (\<exists>programs w'. fetch_all_programs srv w = Some (Inr (JArr programs), w')
         \<and> programs = page_items page1 @ page_items page2
         \<and> length programs = 137
         \<and> sent_requests (events w') =
             sent_requests (events w) @ [ProgramsPage 1, ProgramsPage 2]))"
proof (intro conjI impI)
  assume "make_api_request srv (ProgramsPage page) w = (data, w1) \<and> listing_response data"
  then show "fetch_pages srv page ps w =
        (if page_items data = [] \<or> \<not> has_next_link data
         then Some (Inr (ps @ page_items data), w1)
         else fetch_pages srv (page + 1) (ps @ page_items data) (time_sleep RATE_LIMIT_DELAY w1))"
    using fetch_pages_step by blast
next
  assume a: "\<not> is_cache_valid w PROGRAMS_CACHE_FILE
      \<and> srv (length (sent_requests (events w))) (ProgramsPage 1) = Got 200 h1 (Some page1)
      \<and> srv (Suc (length (sent_requests (events w)))) (ProgramsPage 2) = Got 200 h2 (Some page2)
      \<and> listing_response page1 \<and> listing_response page2
      \<and> length (page_items page1) = 100 \<and> length (page_items page2) = 37
      \<and> has_next_link page1 \<and> \<not> has_next_link page2"
  then have ne: "page_items page1 \<noteq> []" "page_items page2 \<noteq> []"
    by auto
  from a have p1: "srv (length (sent_requests (events w))) (ProgramsPage 1) = Got 200 h1 (Some page1)"
    and p2: "srv (Suc (length (sent_requests (events w)))) (ProgramsPage 2) = Got 200 h2 (Some page2)"
    and wf: "listing_response page1" "listing_response page2"
    and links: "has_next_link page1" "\<not> has_next_link page2"
    by blast+
  have "fetch_pages srv 1 [] w =
     Some (Inr (page_items page1 @ page_items page2),
           w\<lparr>clock := clock w + RATE_LIMIT_DELAY,
             events := events w @ [Acquire, Sent (ProgramsPage 1), Release, Slept RATE_LIMIT_DELAY,
                                   Acquire, Sent (ProgramsPage 2), Release]\<rparr>)"
    by (rule fetch_two_pages [OF refl p1 p2 wf ne links])
  with a show "\<exists>programs w'. fetch_all_programs srv w = Some (Inr (JArr programs), w')
         \<and> programs = page_items page1 @ page_items page2
         \<and> length programs = 137
         \<and> sent_requests (events w') =
             sent_requests (events w) @ [ProgramsPage 1, ProgramsPage 2]"
    by (simp add: fetch_all_programs_def write_cache_def sent_requests_append)
qed

lemma example_pages [simp]:
  "listing_response first_page" "listing_response second_page"
  "page_items first_page = replicate 100 program_stub"
  "page_items second_page = replicate 37 program_stub"
  "has_next_link first_page" "\<not> has_next_link second_page"
  by (simp_all add: listing_response_def page_items_def has_next_link_def
      first_page_def second_page_def)

lemma idle_world_no_cache [simp]: "\<not> is_cache_valid idle_world path"
  by (rule is_cache_valid_absent) (simp add: idle_world_def)

theorem pagination_stops_witness:
  "fetch_pages two_page_server 1 [] idle_world =
     fetch_pages two_page_server (1 + 1) (replicate 100 program_stub)
       (time_sleep RATE_LIMIT_DELAY
          (idle_world\<lparr>events := [Acquire, Sent (ProgramsPage 1), Release]\<rparr>))
   \<and> (\<exists>w'. fetch_all_programs two_page_server idle_world =
          Some (Inr (JArr (replicate 100 program_stub @ replicate 37 program_stub)), w')
        \<and> sent_requests (events w') = [ProgramsPage 1, ProgramsPage 2])"
  using pagination_stops [of two_page_server 1 idle_world first_page
      "idle_world\<lparr>events := [Acquire, Sent (ProgramsPage 1), Release]\<rparr>" "[]"
      NoHeader first_page NoHeader second_page]
  by (simp add: two_page_server_def make_api_request_200)


lemma corrupt_cache_fresh [simp]: "is_cache_valid corrupt_cache_world PROGRAMS_CACHE_FILE"
  by (simp add: is_cache_valid_def datetime_now_def fromtimestamp_def utc_def
      corrupt_cache_world_def timedelta_days_def seconds_def CACHE_EXPIRY_DAYS_def)

lemma corrupt_cache_read [simp]:
  "read_cache corrupt_cache_world PROGRAMS_CACHE_FILE = Inl JSONDecodeError"
  by (simp add: read_cache_def corrupt_cache_world_def)

lemma down_server_pages:
  "fetch_pages down_server page [] w =
     Some (Inr [], snd (make_api_request down_server (ProgramsPage page) w))"
proof -
  have "fst (make_api_request down_server (ProgramsPage page) w) = JNull"
    by (rule make_api_request_down) (simp add: down_server_def)
  then show ?thesis
    by (subst fetch_pages.simps) (simp add: case_prod_beta)
qed


lemma fetch_pages_client_none:
  assumes "fst (make_api_request srv (ProgramsPage page) w) = JNull"
  shows "fetch_pages srv page ps w =
     Some (Inr ps, snd (make_api_request srv (ProgramsPage page) w))"
  using assms by (subst fetch_pages.simps) (simp add: case_prod_beta)



lemma down_server_none: "fst (make_api_request down_server req w) = JNull"
  by (rule make_api_request_down) (simp add: down_server_def)

lemma listing_response_null [simp]: "listing_response JNull" "page_items JNull = []"
  by (simp_all add: listing_response_def page_items_def)


lemma cache_written:
  assumes "\<not> is_cache_valid w PROGRAMS_CACHE_FILE"
    and "fetch_pages srv 1 [] w = Some (Inr programs, w1)"
  shows "fetch_all_programs srv w = Some (Inr (JArr programs), write_cache programs w1)"
    and "files (write_cache programs w1) PROGRAMS_CACHE_FILE =
          Some \<lparr>mtime = clock w1, contents = Inr (JArr programs)\<rparr>"
  using assms by (simp_all add: fetch_all_programs_def write_cache_def)

lemma cache_written_on_failure:
  assumes "\<not> is_cache_valid w PROGRAMS_CACHE_FILE"
    and "fst (make_api_request srv (ProgramsPage 1) w) = JNull"
  shows "fetch_all_programs srv w =
        Some (Inr (JArr []), write_cache [] (snd (make_api_request srv (ProgramsPage 1) w)))"
  using assms fetch_pages_client_none [of srv 1 w "[]"]
  by (simp add: fetch_all_programs_def)

lemma reload_written_cache:
  assumes "t - clock w1 < timedelta_days 30"
    and "utcoffset w1 t = utcoffset w1 (clock w1)"
  shows "fetch_all_programs srv ((write_cache programs w1)\<lparr>clock := t\<rparr>) =
     Some (Inr (JArr programs), (write_cache programs w1)\<lparr>clock := t\<rparr>)"
  using assms
  by (simp add: fetch_all_programs_def is_cache_valid_def datetime_now_def fromtimestamp_def
      write_cache_def read_cache_def CACHE_EXPIRY_DAYS_def)

lemma down_server_call:
  "make_api_request down_server req w =
     (JNull, w\<lparr>clock := clock w + 600000,
              events := events w @ [Acquire, Sent req, Slept 100000, Sent req, Slept 200000,
                                    Sent req, Slept 300000, Release]\<rparr>)"
  by (simp add: make_api_request_alt down_server_def send_def acquire_def release_def
      backoff_def time_sleep_def seconds_def RATE_LIMIT_DELAY_def MAX_REQUESTS_PER_MINUTE_def)

lemma march_cached_sel:
  "clock march_cached = 1709294400600000"
  "utcoffset march_cached = new_york_2024"
  "files march_cached PROGRAMS_CACHE_FILE =
     Some \<lparr>mtime = 1709294400600000, contents = Inr (JArr [])\<rparr>"
  "sent_requests (events march_cached) = [ProgramsPage 1, ProgramsPage 1, ProgramsPage 1]"
  by (simp_all add: march_cached_def march_world_def down_server_call write_cache_def
      seconds_def)

lemma march_later_stale: "\<not> is_cache_valid march_later PROGRAMS_CACHE_FILE"
  by (simp add: march_later_def is_cache_valid_def datetime_now_def fromtimestamp_def
      march_cached_sel new_york_2024_def CACHE_EXPIRY_DAYS_def timedelta_days_def seconds_def)

lemma march_later_refetch:
  "map_option fst (fetch_all_programs two_page_server march_later) =
     Some (Inr (JArr (replicate 100 program_stub @ replicate 37 program_stub)))"
proof -
  have "fetch_pages two_page_server 1 [] march_later =
     Some (Inr (page_items first_page @ page_items second_page),
           march_later\<lparr>clock := clock march_later + RATE_LIMIT_DELAY,
             events := events march_later @
               [Acquire, Sent (ProgramsPage 1), Release, Slept RATE_LIMIT_DELAY,
                Acquire, Sent (ProgramsPage 2), Release]\<rparr>)"
    by (rule fetch_two_pages [OF refl, of _ _ NoHeader _ NoHeader])
       (simp_all add: two_page_server_def)
  then show ?thesis
    using march_later_stale by (simp del: One_nat_def add: fetch_all_programs_def)
qed

text \<open>
  Claim C10. The accumulated list is written to the cache file whatever it holds: a run
  whose first page request fails caches the empty list. A later run returns the cached
  list without a request when the cache is found valid, but validity is decided on naive
  local datetimes: in New York, a run on 1 March 2024 against an unreachable server
  caches the empty list, and a run 29 days, 23 hours and 30 minutes later, after the
  clocks have gone forward, finds the cache expired and fetches the listing again.
\<close>

theorem cache_refetched_within_window:
  "fetch_all_programs down_server march_world = Some (Inr (JArr []), march_cached)
   \<and> files march_cached PROGRAMS_CACHE_FILE =
       Some \<lparr>mtime = clock march_cached, contents = Inr (JArr [])\<rparr>
   \<and> clock march_later - clock march_cached = timedelta_days 30 - seconds 1800
   \<and> \<not> is_cache_valid march_later PROGRAMS_CACHE_FILE
   \<and> map_option fst (fetch_all_programs two_page_server march_later) =
       Some (Inr (JArr (replicate 100 program_stub @ replicate 37 program_stub)))"
proof -
  have "\<not> is_cache_valid march_world PROGRAMS_CACHE_FILE"
    by (rule is_cache_valid_absent) (simp add: march_world_def)
  then have "fetch_all_programs down_server march_world = Some (Inr (JArr []), march_cached)"
    unfolding march_cached_def by (rule cache_written_on_failure) (rule down_server_none)
  moreover have "clock march_later - clock march_cached = timedelta_days 30 - seconds 1800"
    by (simp add: march_later_def)
  ultimately show ?thesis
    using march_later_stale march_later_refetch by (simp add: march_cached_sel)
qed

section \<open>Properties of the scope extractor\<close>

lemma host_of_example:
  "host_of (JStr ''https://Foo.EXAMPLE.com:443/path'') = Inr ''foo.example.com:443''"
  by code_simp

lemma categorize_example: "categorize_domain ''foo.example.com:443'' = Some Standard"
  by code_simp

lemma scope_entry_url:
  "scope_entry url_scope ds = Inr (ds\<lparr>standard := insert ''foo.example.com:443'' (standard ds)\<rparr>)"
  by (simp add: scope_entry_def url_scope_def and_then_def host_of_example categorize_example
      del: host_of.simps)

lemma extract_one_page:
  assumes "srv (length (sent_requests (events w))) (StructuredScopes handle) =
             Got 200 h (Some (JObj [(''data'', JArr (s # ss))]))"
    and "truthy handle"
  shows "fst (extract_domains_from_program srv
            (JObj [(''attributes'', JObj [(''handle'', handle)])]) w) =
         scan_scopes (s # ss) empty_domains"
  using assms
  by (simp add: extract_domains_from_program_def and_then_def make_api_request_200
      del: scan_scopes.simps)

lemma scope_server_answer [simp]:
  "scope_server scopes n (StructuredScopes handle) =
     Got 200 NoHeader (Some (JObj [(''data'', JArr scopes)]))"
  by (simp add: scope_server_def)

lemma extract_url_scope:
  assumes "srv (length (sent_requests (events w))) (StructuredScopes handle) =
             Got 200 h (Some (JObj [(''data'', JArr [url_scope])]))"
    and "truthy handle"
  shows "fst (extract_domains_from_program srv
            (JObj [(''attributes'', JObj [(''handle'', handle)])]) w) =
         Inr \<lparr>standard = {''foo.example.com:443''}, simple_wildcard = {}, wildcard_tld = {}\<rparr>"
  unfolding extract_one_page [of srv w handle h url_scope "[]", OF assms]
  by (simp add: scope_entry_url empty_domains_def)

text \<open>
  Claim C3, as the claim states it, fails: the port is removed only inside
  \<^verbatim>\<open>categorize_domain\<close>, for the classification; the string that the extractor
  normalises and stores keeps it.
\<close>

theorem url_entry_keeps_port:
  "host_of (JStr ''https://Foo.EXAMPLE.com:443/path'') = Inr ''foo.example.com:443''
   \<and> fst (extract_domains_from_program (scope_server [url_scope]) program_stub idle_world) \<noteq>
       Inr \<lparr>standard = {''foo.example.com''}, simple_wildcard = {}, wildcard_tld = {}\<rparr>"
proof -
  have "fst (extract_domains_from_program (scope_server [url_scope]) program_stub idle_world) =
      Inr \<lparr>standard = {''foo.example.com:443''}, simple_wildcard = {}, wildcard_tld = {}\<rparr>"
    unfolding program_stub_def by (rule extract_url_scope) simp_all
  then show ?thesis
    by (simp add: host_of_example del: host_of.simps)
qed

text \<open>
  Claim C3, amended. For a scope entry with asset type \<^verbatim>\<open>URL\<close> and identifier
  \<^verbatim>\<open>https://Foo.EXAMPLE.com:443/path\<close> the extractor strips the scheme and the
  path, lowercases and trims the rest, and puts exactly the string
  \<^verbatim>\<open>foo.example.com:443\<close>, port included, into the standard set.
\<close>

theorem url_entry_extracted:
  "categorize_domain ''foo.example.com:443'' = Some Standard
   \<and> scope_entry url_scope ds =
       Inr (ds\<lparr>standard := insert ''foo.example.com:443'' (standard ds)\<rparr>)
   \<and> (srv (length (sent_requests (events w))) (StructuredScopes handle) =
         Got 200 h (Some (JObj [(''data'', JArr [url_scope])]))
      \<and> truthy handle \<longrightarrow>
      fst (extract_domains_from_program srv
             (JObj [(''attributes'', JObj [(''handle'', handle)])]) w) =
        Inr \<lparr>standard = {''foo.example.com:443''}, simple_wildcard = {}, wildcard_tld = {}\<rparr>)"
  using categorize_example scope_entry_url extract_url_scope by blast

theorem url_entry_extracted_witness:
  "fst (extract_domains_from_program (scope_server [url_scope])
          (JObj [(''attributes'', JObj [(''handle'', JStr ''acme'')])]) idle_world) =
     Inr \<lparr>standard = {''foo.example.com:443''}, simple_wildcard = {}, wildcard_tld = {}\<rparr>"
  using url_entry_extracted [of empty_domains "scope_server [url_scope]" idle_world
      "JStr ''acme''" NoHeader]
  by simp

lemma scope_entry_without_identifier:
  "scope_entry scope_without_identifier ds = Inl KeyError"
  by (simp add: scope_entry_def scope_without_identifier_def and_then_def)

lemma scope_entry_with_number:
  "scope_entry scope_with_number ds = Inl AttributeError"
  by (simp add: scope_entry_def scope_with_number_def and_then_def)

text \<open>
  Claim C1. The extractor tolerates a missing handle, a failed request, a missing
  \<^verbatim>\<open>data\<close> array and entries without \<^verbatim>\<open>attributes\<close> or \<^verbatim>\<open>asset_type\<close>, but a
  URL entry without \<^verbatim>\<open>asset_identifier\<close> raises \<^verbatim>\<open>KeyError\<close> and one whose
  identifier is a number raises \<^verbatim>\<open>AttributeError\<close>.
\<close>

theorem extract_raises_on_malformed_entry:
  "fst (extract_domains_from_program (scope_server [scope_without_identifier])
          program_stub idle_world) = Inl KeyError
   \<and> fst (extract_domains_from_program (scope_server [scope_with_number])
          program_stub idle_world) = Inl AttributeError"
proof -
  have "truthy (JStr ''acme'')" by simp
  then show ?thesis
    unfolding program_stub_def
    by (simp add: extract_one_page scope_entry_without_identifier scope_entry_with_number)
qed

section \<open>Properties of the domain classifier\<close>

lemma star_cons:
  "x # w \<in> star A \<longleftrightarrow> (\<exists>u v. w = u @ v \<and> x # u \<in> A \<and> v \<in> star A)"
proof
  assume "x # w \<in> star A"
  then show "\<exists>u v. w = u @ v \<and> x # u \<in> A \<and> v \<in> star A"
  proof (induction "x # w" arbitrary: w rule: star.induct)
    case (star_app u v)
    show ?case
    proof (cases u)
      case Nil
      with star_app show ?thesis by simp
    next
      case (Cons y u')
      with star_app show ?thesis by auto
    qed
  qed
next
  assume "\<exists>u v. w = u @ v \<and> x # u \<in> A \<and> v \<in> star A"
  then obtain u v where "w = u @ v" "x # u \<in> A" "v \<in> star A" by blast
  then show "x # w \<in> star A"
    using star.star_app [of "x # u" A v] by simp
qed

lemma nullable_iff: "nullable r \<longleftrightarrow> [] \<in> lang r"
  by (induction r) (auto intro: star.star_nil)

lemma lang_deriv: "w \<in> lang (deriv x r) \<longleftrightarrow> x # w \<in> lang r"
proof (induction r arbitrary: w)
  case (Cat r s)
  show ?case
  proof (cases "nullable r")
    case True
    then show ?thesis
      using Cat by (auto simp: nullable_iff Cons_eq_append_conv)
  next
    case False
    then show ?thesis
      using Cat by (auto simp: nullable_iff Cons_eq_append_conv)
  qed
next
  case (Star r)
  then show ?case
    by (auto simp: star_cons)
qed auto

lemma re_match_iff: "re_match r s \<longleftrightarrow> (\<exists>p t. s = p @ t \<and> p \<in> lang r)"
proof (induction s arbitrary: r)
  case Nil
  show ?case by (simp add: nullable_iff)
next
  case (Cons x xs)
  show ?case
  proof
    assume "re_match r (x # xs)"
    then consider "nullable r" | "re_match (deriv x r) xs" by auto
    then show "\<exists>p t. x # xs = p @ t \<and> p \<in> lang r"
    proof cases
      case 1
      then show ?thesis by (auto simp: nullable_iff)
    next
      case 2
      then obtain p t where "xs = p @ t" "p \<in> lang (deriv x r)"
        using Cons.IH by blast
      then have "x # xs = (x # p) @ t" "x # p \<in> lang r"
        by (simp_all add: lang_deriv)
      then show ?thesis by blast
    qed
  next
    assume "\<exists>p t. x # xs = p @ t \<and> p \<in> lang r"
    then obtain p t where pt: "x # xs = p @ t" "p \<in> lang r" by blast
    show "re_match r (x # xs)"
    proof (cases p)
      case Nil
      with pt have "nullable r" by (simp add: nullable_iff)
      then show ?thesis by simp
    next
      case (Cons y p')
      with pt have "xs = p' @ t" "p' \<in> lang (deriv x r)"
        by (simp_all add: lang_deriv)
      then show ?thesis
        using Cons.IH by auto
    qed
  qed
qed

lemma star_any_but: "c \<notin> set w \<Longrightarrow> w \<in> star {[x] | x. x \<noteq> c}"
proof (induction w)
  case Nil
  show ?case by (rule star.star_nil)
next
  case (Cons a w)
  then have "[a] \<in> {[x] | x. x \<noteq> c}" "w \<in> star {[x] | x. x \<noteq> c}" by auto
  then have "[a] @ w \<in> star {[x] | x. x \<noteq> c}" by (rule star.star_app)
  then show ?case by simp
qed

lemma pattern_matches:
  assumes "l \<noteq> []" "CHR ''.'' \<notin> set l" "CHR 0x0A \<notin> set m"
  shows "''*.'' @ l @ ''.'' @ m @ ''*'' \<in> lang wildcard_tld_pattern"
proof -
  obtain a l' where l: "l = a # l'" using assms(1) by (cases l) auto
  with assms(2) have "[a] \<in> lang (AnyBut CHR ''.'')" "l' \<in> lang (Star (AnyBut CHR ''.''))"
    by (auto intro: star_any_but)
  then have "[a] @ l' \<in> lang (Plus (AnyBut CHR ''.''))"
    unfolding Plus_def lang.simps by blast
  then have 1: "l \<in> lang (Plus (AnyBut CHR ''.''))" using l by simp
  have 2: "m \<in> lang (Star (AnyBut CHR 0x0A))"
    using assms(3) by (auto intro: star_any_but)
  have 3: "m @ ''*'' \<in> lang (Cat (Star (AnyBut CHR 0x0A)) (Chr CHR ''*''))"
    using 2 by (simp del: lang.simps(4,7))
  have 4: "''.'' @ m @ ''*'' \<in> lang (Cat (Chr CHR ''.'') (Cat (Star (AnyBut CHR 0x0A)) (Chr CHR ''*'')))"
    using 3 unfolding lang.simps(5) [of "Chr CHR ''.''"] by (simp del: lang.simps(5,7))
  have 5: "l @ ''.'' @ m @ ''*'' \<in> lang (Cat (Plus (AnyBut CHR ''.''))
      (Cat (Chr CHR ''.'') (Cat (Star (AnyBut CHR 0x0A)) (Chr CHR ''*''))))"
    using 1 4 unfolding lang.simps(5) [of "Plus (AnyBut CHR ''.'')"] by blast
  show ?thesis
    unfolding wildcard_tld_pattern_def
    using 5 by (simp del: lang.simps(5,7) add: lang.simps(5) [of "Chr _"])
qed


lemma hd_split_scan_char:
  "hd (split_scan [c] piece s) = piece @ takeWhile (\<lambda>x. x \<noteq> c) s"
  by (induction s arbitrary: piece) simp_all

lemma hd_split_char: "hd (py_split s [c]) = takeWhile (\<lambda>x. x \<noteq> c) s"
  by (simp add: py_split_def hd_split_scan_char)

lemma categorize_second_wildcard:
  assumes d: "d = ''*.'' @ l @ ''.'' @ m @ ''*'' @ t"
    and l: "l \<noteq> []" "CHR ''.'' \<notin> set l"
    and colon: "CHR '':'' \<notin> set (l @ m)"
    and nl: "CHR 0x0A \<notin> set m"
  shows "categorize_domain d = Some Wildcard_tld"
proof -
  let ?p = "''*.'' @ l @ ''.'' @ m @ ''*''"
  have "takeWhile (\<lambda>x. x \<noteq> CHR '':'') (?p @ t) = ?p @ takeWhile (\<lambda>x. x \<noteq> CHR '':'') t"
    using colon by (intro takeWhile_append2) auto
  then have clean: "hd (py_split d '':'') = ?p @ takeWhile (\<lambda>x. x \<noteq> CHR '':'') t"
    unfolding hd_split_char d by simp
  have "?p \<in> lang wildcard_tld_pattern"
    using l nl by (rule pattern_matches)
  then have "re_match wildcard_tld_pattern (hd (py_split d '':''))"
    unfolding re_match_iff clean by blast
  moreover have "d \<noteq> []" "CHR ''.'' \<in> set d"
    using d by simp_all
  ultimately show ?thesis
    by (simp add: categorize_domain_def)
qed

text \<open>
  Claim C5, as the claim states it, fails. The pattern is tried on the string cut at its
  first colon, and \<^verbatim>\<open>.\<close> does not match a line feed: \<^verbatim>\<open>*.a.b:*\<close> has the claimed
  shape (first label \<^verbatim>\<open>a\<close>, then \<^verbatim>\<open>b:\<close>, then the second \<^verbatim>\<open>*\<close>) and is a
  simple wildcard, and with a line feed before the second \<^verbatim>\<open>*\<close> there is no
  category at all.
\<close>

theorem second_wildcard_not_always_tld:
  "''*.a.b:*'' = ''*.'' @ ''a'' @ ''.'' @ ''b:'' @ ''*'' @ []
   \<and> categorize_domain ''*.a.b:*'' = Some Simple_wildcard
   \<and> categorize_domain (''*.a.'' @ [CHR 0x0A] @ ''*'') = None"
  by code_simp

text \<open>
  Claim C5, amended. Every string that starts with \<^verbatim>\<open>*.\<close>, one or more characters
  other than the dot, a dot, any characters and a second \<^verbatim>\<open>*\<close>, with no colon before
  that second \<^verbatim>\<open>*\<close> and no line feed between the second dot and it, is classified
  \<^verbatim>\<open>wildcard_tld\<close> and not \<^verbatim>\<open>simple_wildcard\<close>, although it starts with
  \<^verbatim>\<open>*.\<close>: the pattern is tried before the prefix test.
\<close>

theorem wildcard_tld_precedence:
  "d = ''*.'' @ l @ ''.'' @ m @ ''*'' @ t \<and> l \<noteq> [] \<and> CHR ''.'' \<notin> set l
     \<and> CHR '':'' \<notin> set (l @ m) \<and> CHR 0x0A \<notin> set m
   \<longrightarrow> take 2 d = ''*.''
     \<and> categorize_domain d = Some Wildcard_tld
     \<and> categorize_domain d \<noteq> Some Simple_wildcard"
proof
  assume a: "d = ''*.'' @ l @ ''.'' @ m @ ''*'' @ t \<and> l \<noteq> [] \<and> CHR ''.'' \<notin> set l
     \<and> CHR '':'' \<notin> set (l @ m) \<and> CHR 0x0A \<notin> set m"
  then have "categorize_domain d = Some Wildcard_tld"
    using categorize_second_wildcard by blast
  with a show "take 2 d = ''*.''
     \<and> categorize_domain d = Some Wildcard_tld
     \<and> categorize_domain d \<noteq> Some Simple_wildcard"
    by simp
qed

theorem wildcard_tld_precedence_witness:
  "take 2 ''*.sub.example.*'' = ''*.''
   \<and> categorize_domain ''*.sub.example.*'' = Some Wildcard_tld
   \<and> categorize_domain ''*.sub.example.*'' \<noteq> Some Simple_wildcard"
  using wildcard_tld_precedence [of "''*.sub.example.*''" "''sub''" "''example.''" "[]"]
  by simp

end
